theory Spec2Isabelle
  imports Main
begin

section \<open>The LRU cache of \<open>LRUCache.py\<close>\<close>

text \<open>
  The class \<open>LRUCache\<close> extends Python's \<open>OrderedDict\<close> and adds one field,
  \<open>capacity\<close>. An ordered dictionary is modelled by the list of its (key, value) pairs
  in iteration order: the first pair is the oldest one (the one \<open>popitem(last=False)\<close>
  removes), the last pair is the newest one. The methods mutate the object; the model
  passes the object in and returns it, together with what the call returned or raised.
\<close>

subsection \<open>Values, errors and the object\<close>

text \<open>A Python value is \<open>None\<close> or some other object.\<close>

datatype 'v pyval = PyNone | PyObj 'v

text \<open>The only exception the methods can meet is the \<open>KeyError\<close> of the dictionary.\<close>

datatype error = KeyError

record ('k, 'v) LRUCache =
  items :: "('k \<times> 'v pyval) list"
  capacity :: int

text \<open>
  The outcome of a method call: what the call returned (\<open>Inr\<close>) or raised (\<open>Inl\<close>),
  and the object as the call left it.
\<close>

type_synonym ('r, 'k, 'v) outcome = "(error + 'r) \<times> ('k, 'v) LRUCache"

subsection \<open>The inherited dictionary operations\<close>

text \<open>\<open>list(self.keys())\<close>, \<open>len(self)\<close>, \<open>key in self\<close> and \<open>dict.get(key, default)\<close>.\<close>

definition keys :: "('k, 'v) LRUCache \<Rightarrow> 'k list" where
  "keys c = map fst (items c)"

definition len :: "('k, 'v) LRUCache \<Rightarrow> int" where
  "len c = int (length (items c))"

definition contains :: "('k, 'v) LRUCache \<Rightarrow> 'k \<Rightarrow> (bool, 'k, 'v) outcome" where
  "contains c key = (Inr (key \<in> set (keys c)), c)"

definition dict_get :: "('k, 'v) LRUCache \<Rightarrow> 'k \<Rightarrow> 'v pyval \<Rightarrow> 'v pyval" where
  "dict_get c key dflt = (case map_of (items c) key of None \<Rightarrow> dflt | Some v \<Rightarrow> v)"

text \<open>
  \<open>self[key] = value\<close>: an existing key keeps its place and gets the new value, a new
  key is appended at the end.
\<close>

fun od_set :: "('k \<times> 'a) list \<Rightarrow> 'k \<Rightarrow> 'a \<Rightarrow> ('k \<times> 'a) list" where
  "od_set [] key val = [(key, val)]"
| "od_set (p # ps) key val =
     (if fst p = key then (key, val) # ps else p # od_set ps key val)"

definition setitem :: "('k, 'v) LRUCache \<Rightarrow> 'k \<Rightarrow> 'v pyval \<Rightarrow> ('k, 'v) LRUCache" where
  "setitem c key val = c\<lparr>items := od_set (items c) key val\<rparr>"

text \<open>
  \<open>self.popitem(last=False)\<close>: removes and returns the first pair; on an empty
  dictionary it raises \<open>KeyError\<close> and changes nothing.
\<close>

definition popitem_first :: "('k, 'v) LRUCache \<Rightarrow> ('k \<times> 'v pyval, 'k, 'v) outcome" where
  "popitem_first c =
     (case items c of
        [] \<Rightarrow> (Inl KeyError, c)
      | p # ps \<Rightarrow> (Inr p, c\<lparr>items := ps\<rparr>))"

text \<open>
  \<open>self.move_to_end(key, last=True)\<close>: the pair of \<open>key\<close> becomes the last one, the
  others keep their order; a missing key raises \<open>KeyError\<close>. \<open>od_remove\<close> takes the
  pair of a key out of the list.
\<close>

definition od_remove :: "('k \<times> 'a) list \<Rightarrow> 'k \<Rightarrow> ('k \<times> 'a) list" where
  "od_remove ps key = filter (\<lambda>p. fst p \<noteq> key) ps"

definition move_to_end :: "('k, 'v) LRUCache \<Rightarrow> 'k \<Rightarrow> (unit, 'k, 'v) outcome" where
  "move_to_end c key =
     (case map_of (items c) key of
        None \<Rightarrow> (Inl KeyError, c)
      | Some v \<Rightarrow> (Inr (), c\<lparr>items := od_remove (items c) key @ [(key, v)]\<rparr>))"

text \<open>\<open>del self[key]\<close>: removes the pair of \<open>key\<close>; a missing key raises \<open>KeyError\<close>.\<close>

definition delitem :: "('k, 'v) LRUCache \<Rightarrow> 'k \<Rightarrow> (unit, 'k, 'v) outcome" where
  "delitem c key =
     (if key \<in> set (keys c) then (Inr (), c\<lparr>items := od_remove (items c) key\<rparr>)
      else (Inl KeyError, c))"

subsection \<open>The methods of \<open>LRUCache\<close>\<close>

text \<open>
  \<open>__init__\<close> creates the empty dictionary and stores \<open>capacity\<close> as given. It has
  no check and no \<open>raise\<close>; the result type has the error side only so that the outcome
  of a construction can be compared with a failing one.
\<close>

definition fresh :: "int \<Rightarrow> ('k, 'v) LRUCache" where
  "fresh cap = \<lparr>items = [], capacity = cap\<rparr>"

definition init :: "int \<Rightarrow> error + ('k, 'v) LRUCache" where
  "init cap = Inr (fresh cap)"

text \<open>
  \<^verbatim>\<open>
  def put(self, key, value):
      if len(self) >= self.capacity:
          self.popitem(last=False)
      self[key] = value
  \<close>
\<close>

definition put :: "('k, 'v) LRUCache \<Rightarrow> 'k \<Rightarrow> 'v pyval \<Rightarrow> (unit, 'k, 'v) outcome" where
  "put c key val =
     (if len c \<ge> capacity c then
        (case popitem_first c of
           (Inl e, c1) \<Rightarrow> (Inl e, c1)
         | (Inr _, c1) \<Rightarrow> (Inr (), setitem c1 key val))
      else (Inr (), setitem c key val))"

text \<open>
  \<^verbatim>\<open>
  def get(self, key):
      value = super().get(key, None)
      if value is not None:
          self.move_to_end(key, last=True)
      return value
  \<close>
\<close>

definition get :: "('k, 'v) LRUCache \<Rightarrow> 'k \<Rightarrow> ('v pyval, 'k, 'v) outcome" where
  "get c key =
     (let val = dict_get c key PyNone in
      if val \<noteq> PyNone then
        (case move_to_end c key of
           (Inl e, c1) \<Rightarrow> (Inl e, c1)
         | (Inr _, c1) \<Rightarrow> (Inr val, c1))
      else (Inr val, c))"

text \<open>
  \<^verbatim>\<open>
  def update(self, key, new_value):
      if key not in self:
          self.put(key, new_value)
      else:
          self.move_to_end(key, last=True)
          self[key] = new_value
  \<close>
\<close>

definition update :: "('k, 'v) LRUCache \<Rightarrow> 'k \<Rightarrow> 'v pyval \<Rightarrow> (unit, 'k, 'v) outcome" where
  "update c key new_value =
     (if key \<notin> set (keys c) then put c key new_value
      else
        (case move_to_end c key of
           (Inl e, c1) \<Rightarrow> (Inl e, c1)
         | (Inr _, c1) \<Rightarrow> (Inr (), setitem c1 key new_value)))"

subsection \<open>Sequences of calls\<close>

datatype ('k, 'v) call = Put 'k "'v pyval" | Update 'k "'v pyval"

text \<open>The object after one call, and after a sequence of calls, whatever they raised.\<close>

fun after_call :: "('k, 'v) LRUCache \<Rightarrow> ('k, 'v) call \<Rightarrow> ('k, 'v) LRUCache" where
  "after_call c (Put key val) = snd (put c key val)"
| "after_call c (Update key val) = snd (update c key val)"

definition after_calls :: "('k, 'v) LRUCache \<Rightarrow> ('k, 'v) call list \<Rightarrow> ('k, 'v) LRUCache" where
  "after_calls c cs = foldl after_call c cs"

section \<open>Properties of the dictionary operations\<close>

lemma keys_od_set:
  "map fst (od_set ps k v) = (if k \<in> set (map fst ps) then map fst ps else map fst ps @ [k])"
  by (induction ps) auto

lemma length_od_set:
  "length (od_set ps k v) = (if k \<in> set (map fst ps) then length ps else Suc (length ps))"
  by (induction ps) auto

lemma map_of_od_set: "map_of (od_set ps k v) = (map_of ps)(k \<mapsto> v)"
  by (induction ps) (auto simp: fun_eq_iff)

lemma od_set_keeps_others: "q \<in> set ps \<Longrightarrow> fst q \<noteq> k \<Longrightarrow> q \<in> set (od_set ps k v)"
  by (induction ps) auto

lemma od_set_snoc_same: "k \<notin> set (map fst ps) \<Longrightarrow> od_set (ps @ [(k, w)]) k v = ps @ [(k, v)]"
  by (induction ps) auto

lemma keys_od_remove: "map fst (od_remove ps k) = filter (\<lambda>k'. k' \<noteq> k) (map fst ps)"
  by (simp add: od_remove_def filter_map comp_def)

lemma map_of_od_remove: "map_of (od_remove ps k) k' = (if k' = k then None else map_of ps k')"
  by (induction ps) (auto simp: od_remove_def)

lemma od_remove_absent: "k \<notin> set (map fst ps) \<Longrightarrow> od_remove ps k = ps"
  by (induction ps) (auto simp: od_remove_def)

lemma od_remove_Cons:
  "od_remove (p # ps) k = (if fst p = k then od_remove ps k else p # od_remove ps k)"
  by (simp add: od_remove_def)

lemma length_od_remove:
  "distinct (map fst ps) \<Longrightarrow> k \<in> set (map fst ps) \<Longrightarrow> Suc (length (od_remove ps k)) = length ps"
  by (induction ps) (auto simp: od_remove_Cons od_remove_absent)

lemma map_of_present: "k \<in> set (map fst ps) \<Longrightarrow> \<exists>v. map_of ps k = Some v"
  by (induction ps) auto

lemma move_to_end_present:
  "key \<in> set (keys c) \<Longrightarrow>
   move_to_end c key =
     (Inr (), c\<lparr>items := od_remove (items c) key @ [(key, the (map_of (items c) key))]\<rparr>)"
  using map_of_present [of key "items c"] by (auto simp: move_to_end_def keys_def)

text \<open>On a key that is present, \<open>update\<close> takes the \<open>else\<close> branch, which cannot raise.\<close>

lemma update_on_present_key:
  "key \<in> set (keys c) \<Longrightarrow>
   update c key v = (Inr (), c\<lparr>items := od_remove (items c) key @ [(key, v)]\<rparr>)"
  by (simp add: update_def move_to_end_present setitem_def od_set_snoc_same keys_od_remove)

section \<open>The keys of the dictionary stay distinct\<close>

lemma put_distinct: "distinct (keys c) \<Longrightarrow> distinct (keys (snd (put c k v)))"
  by (cases "items c")
     (auto simp: put_def popitem_first_def setitem_def keys_def keys_od_set)

lemma update_distinct: "distinct (keys c) \<Longrightarrow> distinct (keys (snd (update c k v)))"
proof (cases "k \<in> set (keys c)")
  case True
  assume "distinct (keys c)"
  then show ?thesis
    by (simp add: update_on_present_key [OF True] keys_def keys_od_remove)
next
  case False
  assume "distinct (keys c)"
  with False show ?thesis by (simp add: update_def put_distinct)
qed

section \<open>The size never exceeds the capacity\<close>

lemma put_len:
  "len c \<le> capacity c \<Longrightarrow>
   len (snd (put c k v)) \<le> capacity c \<and> capacity (snd (put c k v)) = capacity c"
  by (cases "items c")
     (auto simp: put_def popitem_first_def setitem_def len_def length_od_set)

lemma update_len:
  "len c \<le> capacity c \<Longrightarrow>
   len (snd (update c k v)) \<le> capacity c \<and> capacity (snd (update c k v)) = capacity c"
proof (cases "k \<in> set (keys c)")
  case False
  assume "len c \<le> capacity c"
  with False show ?thesis by (simp add: update_def put_len)
next
  case True
  assume le: "len c \<le> capacity c"
  have "length (od_remove (items c) k) < length (items c)"
    using True by (auto simp: od_remove_def keys_def intro!: length_filter_less)
  with le True show ?thesis by (simp add: update_on_present_key len_def)
qed

lemma after_call_len:
  "len c \<le> capacity c \<Longrightarrow>
   len (after_call c x) \<le> capacity c \<and> capacity (after_call c x) = capacity c"
  by (cases x) (simp_all add: put_len update_len)

lemma after_calls_len:
  "len c \<le> capacity c \<Longrightarrow>
   len (after_calls c cs) \<le> capacity c \<and> capacity (after_calls c cs) = capacity c"
  unfolding after_calls_def
proof (induction cs arbitrary: c)
  case Nil
  then show ?case by simp
next
  case (Cons x cs)
  from after_call_len [OF Cons.prems, of x]
  have a: "len (after_call c x) \<le> capacity (after_call c x)"
    and b: "capacity (after_call c x) = capacity c" by simp_all
  from Cons.IH [OF a] b show ?case by simp
qed

section \<open>What \<open>put\<close> does in each case\<close>

lemma put_below_capacity:
  "len c < capacity c \<Longrightarrow> put c key val = (Inr (), setitem c key val)"
  by (simp add: put_def)

lemma put_on_empty_at_capacity:
  "capacity c \<le> len c \<Longrightarrow> items c = [] \<Longrightarrow> put c key val = (Inl KeyError, c)"
  by (simp add: put_def popitem_first_def)

lemma put_new_key_last:
  "key \<notin> set (keys c) \<Longrightarrow> put c key val = (Inr (), c') \<Longrightarrow> last (keys c') = key"
  by (cases "items c")
     (auto simp: put_def popitem_first_def setitem_def keys_def keys_od_set split: if_splits)

text \<open>
  When the size has reached the capacity and the dictionary is not empty, \<open>put\<close>
  returns, and what it takes out is the first pair \<open>p\<close> of the dictionary order: the
  result is the rest \<open>ps\<close> with \<open>self[key] = val\<close> applied. This says which position
  is removed, not how recently its key was used.
\<close>

lemma put_at_capacity_removes_first:
  assumes full: "capacity c \<le> len c" and nonempty: "items c = p # ps"
    and res: "put c key val = (r, c')"
  shows "r = Inr ()
       \<and> popitem_first c = (Inr p, c\<lparr>items := ps\<rparr>)
       \<and> items c' = od_set ps key val
       \<and> (\<forall>q \<in> set ps. fst q \<noteq> key \<longrightarrow> q \<in> set (items c'))
       \<and> set (map fst ps) \<subseteq> set (keys c')
       \<and> filter (\<lambda>k. k \<noteq> key) (keys c') = filter (\<lambda>k. k \<noteq> key) (map fst ps)
       \<and> (distinct (keys c) \<and> fst p \<noteq> key \<longrightarrow> fst p \<notin> set (keys c'))"
proof -
  have pop: "popitem_first c = (Inr p, c\<lparr>items := ps\<rparr>)"
    using nonempty by (simp add: popitem_first_def)
  with full res have r: "r = Inr ()" and c': "c' = setitem (c\<lparr>items := ps\<rparr>) key val"
    by (simp_all add: put_def)
  from c' have it: "items c' = od_set ps key val"
    by (simp add: setitem_def)
  have others: "\<forall>q \<in> set ps. fst q \<noteq> key \<longrightarrow> q \<in> set (items c')"
    by (simp add: it od_set_keeps_others)
  have sub: "set (map fst ps) \<subseteq> set (keys c')"
    by (auto simp: keys_def it keys_od_set)
  have ord: "filter (\<lambda>k. k \<noteq> key) (keys c') = filter (\<lambda>k. k \<noteq> key) (map fst ps)"
    by (simp add: keys_def it keys_od_set)
  have gone: "distinct (keys c) \<and> fst p \<noteq> key \<longrightarrow> fst p \<notin> set (keys c')"
    using nonempty by (auto simp: keys_def it keys_od_set)
  from r pop it others sub ord gone show ?thesis by blast
qed

section \<open>The claims\<close>

text \<open>
  C1. The claim: after a successful \<open>put(K, V)\<close>, K is the last key of the order, also
  when K was present before. The code does not do this: \<open>self[key] = value\<close> leaves an
  existing key where it is. With capacity 3, after \<open>put(a, 1)\<close> and \<open>put(b, 2)\<close> the
  call \<open>put(a, 99)\<close> succeeds, stores 99 and leaves the order \<open>[a, b]\<close>: the last key
  is \<open>b\<close>. The test \<open>test_duplicate_put\<close> of the source expects \<open>[b, a]\<close> here.
\<close>

theorem put_existing_key_keeps_place:
  "after_calls (fresh 3) [Put ''a'' (PyObj (1::int)), Put ''b'' (PyObj 2)]
     = \<lparr>items = [(''a'', PyObj 1), (''b'', PyObj 2)], capacity = 3\<rparr>
   \<and> put \<lparr>items = [(''a'', PyObj (1::int)), (''b'', PyObj 2)], capacity = 3\<rparr> ''a'' (PyObj 99)
     = (Inr (), \<lparr>items = [(''a'', PyObj 99), (''b'', PyObj 2)], capacity = 3\<rparr>)
   \<and> last (keys (snd (put \<lparr>items = [(''a'', PyObj (1::int)), (''b'', PyObj 2)], capacity = 3\<rparr>
                          ''a'' (PyObj 99)))) = ''b''"
  by (simp add: after_calls_def fresh_def put_def len_def popitem_first_def setitem_def keys_def)

text \<open>
  C2. The claim: with capacity 0, \<open>put\<close> is a no-op that never raises. The code stores
  nothing and the size stays 0, but the call raises: \<open>len(self) >= self.capacity\<close> is
  \<open>0 >= 0\<close>, so \<open>popitem\<close> runs on the empty dictionary and raises \<open>KeyError\<close>. The
  test \<open>test_zero_capacity\<close> of the source expects the call to return.
\<close>

theorem put_capacity_zero_raises:
  "put (fresh 0) ''a'' (PyObj (1::int)) = (Inl KeyError, fresh 0)"
  by (simp add: put_def fresh_def len_def popitem_first_def)

text \<open>
  C3. The claim: constructing a cache with a negative capacity fails with a configuration
  error. The constructor has no check: with capacity \<open>-1\<close> it returns the empty cache
  whose capacity is \<open>-1\<close>.
\<close>

theorem init_negative_counterexample:
  "(init (- 1) :: error + (string, int) LRUCache) = Inr \<lparr>items = [], capacity = - 1\<rparr>"
  by (simp add: init_def fresh_def)

text \<open>
  C3, as amended: constructing a cache with a negative capacity succeeds; the result is the
  empty cache that holds the negative capacity as it was given.
\<close>

theorem init_negative_accepted:
  "cap < 0 \<Longrightarrow> init cap = Inr \<lparr>items = [], capacity = cap\<rparr>"
  by (simp add: init_def fresh_def)

theorem init_negative_accepted_witness:
  "(- 5 :: int) < 0
   \<and> (init (- 5) :: error + (string, int) LRUCache) = Inr \<lparr>items = [], capacity = - 5\<rparr>"
  using init_negative_accepted [of "- 5"] by simp

text \<open>
  C4. The claim: deleting an absent key is a no-op and not an error. The class has no
  \<open>delete\<close> method; deletion is the inherited \<open>del cache[key]\<close>, which raises
  \<open>KeyError\<close> on an absent key.
\<close>

theorem delitem_absent_counterexample:
  "delitem \<lparr>items = [(''a'', PyObj (1::int))], capacity = 3\<rparr> ''b''
     = (Inl KeyError, \<lparr>items = [(''a'', PyObj 1)], capacity = 3\<rparr>)"
  by (simp add: delitem_def keys_def)

text \<open>
  C4, as amended: \<open>del cache[K]\<close> returns when K is present and raises \<open>KeyError\<close>,
  leaving the cache as it was, when K is absent. In both cases K is absent afterwards,
  every other key keeps its presence, its value and its place relative to the others,
  and the capacity is unchanged.
\<close>

theorem delitem_effect:
  assumes "delitem c key = (r, c')"
  shows "r = (if key \<in> set (keys c) then Inr () else Inl KeyError)
       \<and> (key \<notin> set (keys c) \<longrightarrow> c' = c)
       \<and> key \<notin> set (keys c')
       \<and> keys c' = filter (\<lambda>k. k \<noteq> key) (keys c)
       \<and> (\<forall>k. k \<noteq> key \<longrightarrow> map_of (items c') k = map_of (items c) k)
       \<and> capacity c' = capacity c"
proof (cases "key \<in> set (keys c)")
  case True
  with assms have r: "r = Inr ()" and c': "c' = c\<lparr>items := od_remove (items c) key\<rparr>"
    by (simp_all add: delitem_def)
  from True r c' show ?thesis
    by (simp add: keys_def keys_od_remove map_of_od_remove)
next
  case False
  with assms have r: "r = Inl KeyError" and c': "c' = c"
    by (simp_all add: delitem_def)
  from False have "filter (\<lambda>k. k \<noteq> key) (keys c) = keys c"
    by (auto intro: filter_True)
  with False r c' show ?thesis by simp
qed

theorem delitem_effect_witness:
  "delitem \<lparr>items = [(''a'', PyObj (1::int)), (''b'', PyObj 2), (''c'', PyObj 3)], capacity = 3\<rparr> ''b''
     = (Inr (), \<lparr>items = [(''a'', PyObj 1), (''c'', PyObj 3)], capacity = 3\<rparr>)
   \<and> keys \<lparr>items = [(''a'', PyObj (1::int)), (''c'', PyObj 3)], capacity = 3\<rparr> = [''a'', ''c'']"
proof -
  have h: "delitem \<lparr>items = [(''a'', PyObj (1::int)), (''b'', PyObj 2), (''c'', PyObj 3)], capacity = 3\<rparr> ''b''
     = (Inr (), \<lparr>items = [(''a'', PyObj 1), (''c'', PyObj 3)], capacity = 3\<rparr>)"
    by (simp add: delitem_def keys_def od_remove_def)
  from delitem_effect [OF h] h show ?thesis by (simp add: keys_def)
qed

text \<open>
  C5. The claim: when an insertion at full capacity evicts, the entry removed is the
  least-recently-used key, the one that has gone the longest without being put, updated
  or successfully got. The code removes the first pair of the dictionary order, and
  that is not always this key, because \<open>put\<close> on an existing key leaves it where it is
  (the defect of C1). With capacity 3, after \<open>put(a, 1)\<close>, \<open>put(b, 2)\<close>,
  \<open>put(a, 99)\<close> and \<open>put(c, 3)\<close> the order is \<open>[a, b, c]\<close>, although \<open>b\<close> is the
  key that was put longest ago; \<open>put(d, 4)\<close> then evicts \<open>a\<close> and keeps \<open>b\<close>. The
  comment in \<open>put\<close> says that the least recently used element is evicted, and the test
  \<open>test_duplicate_put\<close> of the source expects a key that is put again to become the
  most recently used one.
\<close>

theorem put_evicts_recently_put_key:
  "after_calls (fresh 3) [Put ''a'' (PyObj (1::int)), Put ''b'' (PyObj 2), Put ''a'' (PyObj 99)]
     = \<lparr>items = [(''a'', PyObj 99), (''b'', PyObj 2)], capacity = 3\<rparr>
   \<and> after_calls (fresh 3)
         [Put ''a'' (PyObj (1::int)), Put ''b'' (PyObj 2), Put ''a'' (PyObj 99), Put ''c'' (PyObj 3)]
     = \<lparr>items = [(''a'', PyObj 99), (''b'', PyObj 2), (''c'', PyObj 3)], capacity = 3\<rparr>
   \<and> put \<lparr>items = [(''a'', PyObj (99::int)), (''b'', PyObj 2), (''c'', PyObj 3)], capacity = 3\<rparr>
         ''d'' (PyObj 4)
     = (Inr (), \<lparr>items = [(''b'', PyObj 2), (''c'', PyObj 3), (''d'', PyObj 4)], capacity = 3\<rparr>)
   \<and> ''a'' \<notin> set (keys (snd (put
         \<lparr>items = [(''a'', PyObj (99::int)), (''b'', PyObj 2), (''c'', PyObj 3)], capacity = 3\<rparr>
         ''d'' (PyObj 4))))
   \<and> ''b'' \<in> set (keys (snd (put
         \<lparr>items = [(''a'', PyObj (99::int)), (''b'', PyObj 2), (''c'', PyObj 3)], capacity = 3\<rparr>
         ''d'' (PyObj 4))))"
  by (simp add: after_calls_def fresh_def put_def len_def popitem_first_def setitem_def keys_def)

text \<open>
  C6. Starting from a cache constructed with a capacity that is not negative, after every
  prefix of every sequence of \<open>put\<close> and \<open>update\<close> calls (so after every call,
  whether it returned or raised) the size is at most the capacity, which is still the
  one given at construction.
\<close>

theorem size_le_capacity:
  assumes "init cap = Inr c0" and "0 \<le> cap" and "n \<le> length cs"
  shows "len (after_calls c0 (take n cs)) \<le> cap
       \<and> capacity (after_calls c0 (take n cs)) = cap"
proof -
  from assms(1) have c0: "c0 = fresh cap" by (simp add: init_def)
  with assms(2) have "len c0 \<le> capacity c0" and "capacity c0 = cap"
    by (simp_all add: fresh_def len_def)
  with after_calls_len [of c0 "take n cs"] show ?thesis by simp
qed

theorem size_le_capacity_witness:
  "(init 1 :: error + (string, int) LRUCache) = Inr (fresh 1) \<and> (0::int) \<le> 1
   \<and> (2::nat) \<le> length [Put ''a'' (PyObj (1::int)), Put ''b'' (PyObj 2)]
   \<and> len (after_calls (fresh 1) (take 2 [Put ''a'' (PyObj (1::int)), Put ''b'' (PyObj 2)])) \<le> 1
   \<and> after_calls (fresh 1) [Put ''a'' (PyObj (1::int)), Put ''b'' (PyObj 2)]
       = \<lparr>items = [(''b'', PyObj 2)], capacity = 1\<rparr>"
proof -
  have i: "(init 1 :: error + (string, int) LRUCache) = Inr (fresh 1)" by (simp add: init_def)
  have n: "(2::nat) \<le> length [Put ''a'' (PyObj (1::int)), Put ''b'' (PyObj 2)]" by simp
  have e: "after_calls (fresh 1) [Put ''a'' (PyObj (1::int)), Put ''b'' (PyObj 2)]
       = \<lparr>items = [(''b'', PyObj 2)], capacity = 1\<rparr>"
    by (simp add: after_calls_def fresh_def put_def len_def popitem_first_def setitem_def)
  from size_le_capacity [OF i _ n] i n e show ?thesis by simp
qed

text \<open>
  C7. For a key that is present, \<open>update\<close> returns, the key then maps to the new value
  and is the last key of the order, the other keys keep their order and their values,
  the set of keys is the same and so is the size: nothing is evicted. Nothing is
  assumed about the size and the capacity.
\<close>

theorem update_present:
  assumes present: "key \<in> set (keys c)" and res: "update c key new_value = (r, c')"
  shows "r = Inr ()
       \<and> map_of (items c') key = Some new_value
       \<and> keys c' = filter (\<lambda>k. k \<noteq> key) (keys c) @ [key]
       \<and> last (keys c') = key
       \<and> set (keys c') = set (keys c)
       \<and> (\<forall>k. k \<noteq> key \<longrightarrow> map_of (items c') k = map_of (items c) k)
       \<and> (distinct (keys c) \<longrightarrow> len c' = len c)
       \<and> capacity c' = capacity c"
proof -
  from update_on_present_key [OF present, of new_value] res
  have r: "r = Inr ()" and c': "c' = c\<lparr>items := od_remove (items c) key @ [(key, new_value)]\<rparr>"
    by simp_all
  have ks: "keys c' = filter (\<lambda>k. k \<noteq> key) (keys c) @ [key]"
    by (simp add: c' keys_def keys_od_remove)
  have val: "map_of (items c') key = Some new_value"
    by (simp add: c' map_add_def map_of_od_remove)
  have same: "set (keys c') = set (keys c)"
    using present by (auto simp: ks)
  have others: "\<forall>k. k \<noteq> key \<longrightarrow> map_of (items c') k = map_of (items c) k"
    by (simp add: c' map_add_def map_of_od_remove split: option.split)
  have size: "distinct (keys c) \<longrightarrow> len c' = len c"
    using present length_od_remove [of "items c" key]
    by (auto simp: c' len_def keys_def)
  from r val ks same others size c' show ?thesis by simp
qed

theorem update_present_witness:
  "''a'' \<in> set (keys \<lparr>items = [(''a'', PyObj (1::int)), (''b'', PyObj 2)], capacity = 2\<rparr>)
   \<and> update \<lparr>items = [(''a'', PyObj (1::int)), (''b'', PyObj 2)], capacity = 2\<rparr> ''a'' (PyObj 77)
       = (Inr (), \<lparr>items = [(''b'', PyObj 2), (''a'', PyObj 77)], capacity = 2\<rparr>)
   \<and> last (keys \<lparr>items = [(''b'', PyObj (2::int)), (''a'', PyObj 77)], capacity = 2\<rparr>) = ''a''"
proof -
  let ?c = "\<lparr>items = [(''a'', PyObj (1::int)), (''b'', PyObj 2)], capacity = 2\<rparr>"
  let ?c' = "\<lparr>items = [(''b'', PyObj (2::int)), (''a'', PyObj 77)], capacity = 2\<rparr>"
  have present: "''a'' \<in> set (keys ?c)" by (simp add: keys_def)
  have res: "update ?c ''a'' (PyObj 77) = (Inr (), ?c')"
    by (simp add: update_def keys_def move_to_end_def od_remove_def setitem_def)
  from update_present [OF present res] present res show ?thesis by simp
qed

text \<open>
  C8. \<open>get\<close> on an absent key returns \<open>None\<close> and leaves the cache as it was;
  \<open>key in cache\<close> answers whether the key is present and leaves the cache as it was,
  for a present and for an absent key.
\<close>

theorem get_absent_and_contains_frame:
  "(key \<notin> set (keys c) \<longrightarrow> get c key = (Inr PyNone, c))
   \<and> contains c k = (Inr (k \<in> set (keys c)), c)"
proof -
  have "map_of (items c) key = None" if "key \<notin> set (keys c)"
    using that by (simp add: keys_def map_of_eq_None_iff)
  then show ?thesis by (simp add: get_def dict_get_def contains_def)
qed

theorem get_absent_and_contains_frame_witness:
  "''z'' \<notin> set (keys \<lparr>items = [(''a'', PyObj (1::int)), (''b'', PyObj 2)], capacity = 2\<rparr>)
   \<and> get \<lparr>items = [(''a'', PyObj (1::int)), (''b'', PyObj 2)], capacity = 2\<rparr> ''z''
       = (Inr PyNone, \<lparr>items = [(''a'', PyObj 1), (''b'', PyObj 2)], capacity = 2\<rparr>)
   \<and> contains \<lparr>items = [(''a'', PyObj (1::int)), (''b'', PyObj 2)], capacity = 2\<rparr> ''a''
       = (Inr True, \<lparr>items = [(''a'', PyObj 1), (''b'', PyObj 2)], capacity = 2\<rparr>)"
  using get_absent_and_contains_frame
    [of "''z''" "\<lparr>items = [(''a'', PyObj (1::int)), (''b'', PyObj 2)], capacity = 2\<rparr>" "''a''"]
  by (simp add: keys_def)

text \<open>
  C9. For a key that is absent, \<open>update\<close> has the outcome of \<open>put\<close> with the same
  arguments: the same return or exception and the same resulting cache, eviction
  included.
\<close>

theorem update_absent_is_put:
  "key \<notin> set (keys c) \<Longrightarrow> update c key new_value = put c key new_value"
  by (simp add: update_def)

theorem update_absent_is_put_witness:
  "''c'' \<notin> set (keys \<lparr>items = [(''a'', PyObj (1::int)), (''b'', PyObj 2)], capacity = 2\<rparr>)
   \<and> update \<lparr>items = [(''a'', PyObj (1::int)), (''b'', PyObj 2)], capacity = 2\<rparr> ''c'' (PyObj 3)
       = put \<lparr>items = [(''a'', PyObj (1::int)), (''b'', PyObj 2)], capacity = 2\<rparr> ''c'' (PyObj 3)
   \<and> put \<lparr>items = [(''a'', PyObj (1::int)), (''b'', PyObj 2)], capacity = 2\<rparr> ''c'' (PyObj 3)
       = (Inr (), \<lparr>items = [(''b'', PyObj 2), (''c'', PyObj 3)], capacity = 2\<rparr>)"
proof -
  let ?c = "\<lparr>items = [(''a'', PyObj (1::int)), (''b'', PyObj 2)], capacity = 2\<rparr>"
  have absent: "''c'' \<notin> set (keys ?c)" by (simp add: keys_def)
  have p: "put ?c ''c'' (PyObj 3) = (Inr (), \<lparr>items = [(''b'', PyObj 2), (''c'', PyObj 3)], capacity = 2\<rparr>)"
    by (simp add: put_def len_def popitem_first_def setitem_def)
  from update_absent_is_put [OF absent, of "PyObj 3"] absent p show ?thesis by simp
qed

text \<open>
  C10. For a key stored with the value \<open>None\<close>, \<open>get\<close> returns \<open>None\<close>, which is
  also what it returns for every absent key, and leaves the cache as it was: the key is
  not moved to the end.
\<close>

theorem get_none_valued:
  assumes "map_of (items c) key = Some PyNone"
  shows "get c key = (Inr PyNone, c)
       \<and> (\<forall>k. k \<notin> set (keys c) \<longrightarrow> fst (get c k) = fst (get c key))"
proof -
  from assms have here: "get c key = (Inr PyNone, c)"
    by (simp add: get_def dict_get_def)
  have "get c k = (Inr PyNone, c)" if "k \<notin> set (keys c)" for k
  proof -
    from that have "map_of (items c) k = None"
      by (simp add: keys_def map_of_eq_None_iff)
    then show ?thesis by (simp add: get_def dict_get_def)
  qed
  with here show ?thesis by simp
qed

theorem get_none_valued_witness:
  "map_of (items \<lparr>items = [(''a'', PyNone), (''b'', PyObj (2::int))], capacity = 2\<rparr>) ''a'' = Some PyNone
   \<and> get \<lparr>items = [(''a'', PyNone), (''b'', PyObj (2::int))], capacity = 2\<rparr> ''a''
       = (Inr PyNone, \<lparr>items = [(''a'', PyNone), (''b'', PyObj 2)], capacity = 2\<rparr>)
   \<and> last (keys \<lparr>items = [(''a'', PyNone), (''b'', PyObj (2::int))], capacity = 2\<rparr>) = ''b''"
proof -
  let ?c = "\<lparr>items = [(''a'', PyNone), (''b'', PyObj (2::int))], capacity = 2\<rparr>"
  have h: "map_of (items ?c) ''a'' = Some PyNone" by simp
  from get_none_valued [OF h] h show ?thesis by (simp add: keys_def)
qed

end
